theory Spec2Isabelle
  imports Complex_Main
begin

section \<open>Screen recording keywords of \<^verbatim>\<open>SeleniumLibrary/keywords/screenshot.py\<close>\<close>

text \<open>
  The theory embeds the recording keywords of \<^verbatim>\<open>ScreenshotKeywords\<close>: the path helpers
  \<^verbatim>\<open>_get_screenshot_path\<close>, \<^verbatim>\<open>_get_video_image_path\<close>, \<^verbatim>\<open>_get_video_path\<close>, the keyword
  \<^verbatim>\<open>Screen Record Start\<close> (\<^verbatim>\<open>capture_screenshots\<close>), one pass of the capture thread
  \<^verbatim>\<open>_loop_capture_screenshots\<close> and the keyword \<^verbatim>\<open>Screen Record Stop\<close>
  (\<^verbatim>\<open>stop_recording_and_save_to_mp4\<close>).

  Conventions. Python integers are \<open>int\<close>. Floats are reals that are rounded as IEEE
  doubles where the code divides; clock readings are reals, and the difference of two readings
  is taken exact, as it is for doubles within a factor 2 of each other. A raised exception is a
  value \<open>Inl e\<close>. Module
  globals that Python creates on first use are \<open>option\<close> fields, \<open>None\<close> standing for a name
  that is not bound yet. A \<^verbatim>\<open>while True\<close> loop that need not end is a
  \<^theory_text>\<open>partial_function\<close> into \<open>option\<close>, \<open>None\<close> standing for a run that never
  returns. Paths follow POSIX, where \<^verbatim>\<open>os.sep\<close> is \<^verbatim>\<open>/\<close> and
  \<^verbatim>\<open>filename.replace('/', os.sep)\<close> changes nothing. Threads are not scheduled by the
  model: a started thread is recorded, and its passes are applied one by one, either directly
  or as what the other threads do while a keyword sleeps.
\<close>

subsection \<open>Data model\<close>

text \<open>
  One entry of \<^verbatim>\<open>screen_video_queue\<close> is the Python list
  \<^verbatim>\<open>[0, True, screenshots, False]\<close>: position 0 the running time, position 1 the recording
  switch, position 2 the list of frame files, position 3 the flag the thread sets on exit.
\<close>

record session =
  elapsed :: real
  recording :: bool
  frames :: "string list"
  finished :: bool

datatype error =
    NameError
  | IndexError
  | FormatError
  | FileNotFoundError
  | AttributeError
  | OverflowError
  | DriverError
  | RuntimeError string

text \<open>The messages handed to \<^verbatim>\<open>self.info\<close>, one constructor per format string of the source.\<close>

datatype log_msg =
    NoBrowserOpen
  | StartRecord int
  | CannotCapture
  | StopRecord int
  | CannotStop int
  | WaitSeconds int
  | RecordTime real nat
  | WriteDone int
  | EmbedToLog string nat

text \<open>What \<^verbatim>\<open>cv2.VideoWriter\<close> received: the output path, the rate, the size and the frames
  handed to \<^verbatim>\<open>write\<close>, in order.\<close>

record video =
  vpath :: string
  vfps :: int
  vsize :: "nat \<times> nat"
  vframes :: "string list"

record world =
  screen_video_queue :: "session list option"
  g_screenshots_index :: "int option"
  g_video_index :: "int option"
  screenshot_root_directory :: "string option"
  log_dir :: string
  drivers_current :: bool
  files :: "string set"
  image_shape :: "string \<Rightarrow> (nat \<times> nat) option"
  infos :: "log_msg list"
  slept :: nat
  threads :: "(int \<times> string) list"
  videos :: "video list"

subsection \<open>Floats\<close>

text \<open>
  A Python float is an IEEE double. Its finite values are real numbers, and an operation
  returns the exact result rounded to the nearest double, ties to the even one; a result that
  rounds to \<open>2 ^ 1024\<close> or beyond is an infinity. At magnitude \<open>x > 0\<close> the doubles are the
  multiples of \<open>double_ulp x\<close>: 53 significant bits, the exponent not below \<open>-1022\<close>.
  \<open>to_double\<close> rounds a real number, \<open>None\<close> standing for an infinity.
\<close>

definition pow2 :: "int \<Rightarrow> real" where
  "pow2 e = (if 0 \<le> e then 2 ^ nat e else 1 / 2 ^ nat (- e))"

definition round_even :: "real \<Rightarrow> int" where
  "round_even x =
     (let f = \<lfloor>x\<rfloor>; d = x - of_int f
      in if d < 1 / 2 then f
         else if 1 / 2 < d then f + 1
         else if even f then f else f + 1)"

definition double_ulp :: "real \<Rightarrow> real" where
  "double_ulp x = pow2 (max \<lfloor>log 2 x\<rfloor> (- 1022) - 52)"

definition overflow_limit :: real where
  "overflow_limit = 2 ^ 1024"

definition to_double :: "real \<Rightarrow> real option" where
  "to_double x =
     (if x = 0 then Some 0
      else
        (let u = double_ulp \<bar>x\<bar>;
             r = of_int (round_even (\<bar>x\<bar> / u)) * u
         in if overflow_limit \<le> r then None else Some (sgn x * r)))"

text \<open>
  \<^verbatim>\<open>len(frames) / elapsed\<close>: the length is converted to a float, which is exact below
  \<open>2 ^ 53\<close>, and divided by the elapsed time, which line 150 has found different from 0.
\<close>

definition float_div :: "nat \<Rightarrow> real \<Rightarrow> real option" where
  "float_div n t = to_double (real n / t)"

subsection \<open>Frame rate (lines 152--154)\<close>

text \<open>Python's \<^verbatim>\<open>int\<close> on a finite float truncates towards zero; on an infinity it raises
  \<^verbatim>\<open>OverflowError\<close>.\<close>

definition py_int :: "real \<Rightarrow> int" where
  "py_int x = (if 0 \<le> x then \<lfloor>x\<rfloor> else \<lceil>x\<rceil>)"

text \<open>
  \<^verbatim>\<open>fps = int(len(frames) / elapsed)\<close>, then
  \<^verbatim>\<open>if fps < 1 or len(frames) < 5: fps = 1\<close>. \<open>fps_of_quotient\<close> is the part after the
  division, for the float \<open>q\<close> that the division returned.
\<close>

definition fps_of_quotient :: "real \<Rightarrow> nat \<Rightarrow> int" where
  "fps_of_quotient q n =
     (let fps = py_int q
      in if fps < 1 \<or> n < 5 then 1 else fps)"

definition video_fps :: "nat \<Rightarrow> real \<Rightarrow> error + int" where
  "video_fps n t =
     (case float_div n t of
        None \<Rightarrow> Inl OverflowError
      | Some q \<Rightarrow> Inr (fps_of_quotient q n))"

subsection \<open>Python list indexing\<close>

text \<open>A Python list of length \<open>n\<close> accepts the indices \<open>-n, \<dots>, n - 1\<close>; a negative index counts
  from the end, any other index raises \<^verbatim>\<open>IndexError\<close>.\<close>

definition py_index :: "nat \<Rightarrow> int \<Rightarrow> nat option" where
  "py_index n i =
     (if 0 \<le> i \<and> i < int n then Some (nat i)
      else if - int n \<le> i \<and> i < 0 then Some (nat (int n + i))
      else None)"

text \<open>Reading \<^verbatim>\<open>screen_video_queue[index]\<close> and writing one of its positions.\<close>

definition get_session :: "int \<Rightarrow> world \<Rightarrow> error + session" where
  "get_session index w =
     (case screen_video_queue w of
        None \<Rightarrow> Inl NameError
      | Some q \<Rightarrow>
          (case py_index (length q) index of
             None \<Rightarrow> Inl IndexError
           | Some k \<Rightarrow> Inr (q ! k)))"

definition update_session :: "int \<Rightarrow> (session \<Rightarrow> session) \<Rightarrow> world \<Rightarrow> error + world" where
  "update_session index f w =
     (case screen_video_queue w of
        None \<Rightarrow> Inl NameError
      | Some q \<Rightarrow>
          (case py_index (length q) index of
             None \<Rightarrow> Inl IndexError
           | Some k \<Rightarrow> Inr (w\<lparr>screen_video_queue := Some (q[k := f (q ! k)])\<rparr>)))"

subsection \<open>Paths (lines 197--243)\<close>

text \<open>\<^verbatim>\<open>os.path.join(directory, formatted)\<close> and \<^verbatim>\<open>os.path.dirname(path)\<close> of \<^verbatim>\<open>posixpath\<close>.\<close>

definition path_join :: "string \<Rightarrow> string \<Rightarrow> string" where
  "path_join a b =
     (if take 1 b = ''/'' then b
      else if a = [] \<or> last a = CHR ''/'' then a @ b
      else a @ ''/'' @ b)"

definition dirname :: "string \<Rightarrow> string" where
  "dirname p =
     (let head = rev (dropWhile (\<lambda>c. c \<noteq> CHR ''/'') (rev p))
      in if head \<noteq> [] \<and> (\<exists>c \<in> set head. c \<noteq> CHR ''/'')
         then rev (dropWhile (\<lambda>c. c = CHR ''/'') (rev head))
         else head)"

text \<open>\<^verbatim>\<open>self.ctx.screenshot_root_directory or self.log_dir\<close>: \<^verbatim>\<open>None\<close> and the empty string
  are both false.\<close>

definition directory :: "world \<Rightarrow> string" where
  "directory w =
     (case screenshot_root_directory w of
        None \<Rightarrow> log_dir w
      | Some d \<Rightarrow> if d = [] then log_dir w else d)"

text \<open>
  The three path helpers run the same loop and differ in where the counter lives. The loop
  takes \<^verbatim>\<open>str.format\<close> as the parameter \<open>fmt\<close>: \<open>fmt filename i\<close> is
  \<^verbatim>\<open>filename.format(index=i)\<close>, \<open>None\<close> when the call raises. It returns the counter
  value it stopped at together with the path or the error; the whole result is \<open>None\<close> when
  the loop never ends.
\<close>

partial_function (option) index_loop ::
  "(string \<Rightarrow> int \<Rightarrow> string option) \<Rightarrow> string set \<Rightarrow> string \<Rightarrow> string \<Rightarrow> int
     \<Rightarrow> (int \<times> (error + string)) option" where
  "index_loop fmt fs dir filename index =
     (case fmt filename (index + 1) of
        None \<Rightarrow> Some (index + 1, Inl FormatError)
      | Some formatted \<Rightarrow>
          if formatted = filename \<or> path_join dir formatted \<notin> fs
          then Some (index + 1, Inr (path_join dir formatted))
          else index_loop fmt fs dir filename (index + 1))"

declare index_loop.simps [code]

text \<open>\<^verbatim>\<open>_get_screenshot_path\<close>: the counter is the local \<^verbatim>\<open>index = 0\<close> of each call.
  \<open>screenshot_index\<close> is the value of that local when the call returns.\<close>

definition get_screenshot_path ::
  "(string \<Rightarrow> int \<Rightarrow> string option) \<Rightarrow> string \<Rightarrow> world \<Rightarrow> (error + string) option" where
  "get_screenshot_path fmt filename w =
     map_option snd (index_loop fmt (files w) (directory w) filename 0)"

definition screenshot_index ::
  "(string \<Rightarrow> int \<Rightarrow> string option) \<Rightarrow> string \<Rightarrow> world \<Rightarrow> int option" where
  "screenshot_index fmt filename w =
     map_option fst (index_loop fmt (files w) (directory w) filename 0)"

text \<open>\<^verbatim>\<open>_get_video_image_path\<close> and \<^verbatim>\<open>_get_video_path\<close>: the counter is a module global,
  bound to 0 on first use and written back at every increment.\<close>

definition counter_value :: "int option \<Rightarrow> int" where
  "counter_value g = (case g of None \<Rightarrow> 0 | Some i \<Rightarrow> i)"

definition get_video_image_path ::
  "(string \<Rightarrow> int \<Rightarrow> string option) \<Rightarrow> string \<Rightarrow> world \<Rightarrow> ((error + string) \<times> world) option" where
  "get_video_image_path fmt filename w =
     (case index_loop fmt (files w) (directory w) filename (counter_value (g_screenshots_index w)) of
        None \<Rightarrow> None
      | Some (i, r) \<Rightarrow> Some (r, w\<lparr>g_screenshots_index := Some i\<rparr>))"

definition get_video_path ::
  "(string \<Rightarrow> int \<Rightarrow> string option) \<Rightarrow> string \<Rightarrow> world \<Rightarrow> ((error + string) \<times> world) option" where
  "get_video_path fmt filename w =
     (case index_loop fmt (files w) (directory w) filename (counter_value (g_video_index w)) of
        None \<Rightarrow> None
      | Some (i, r) \<Rightarrow> Some (r, w\<lparr>g_video_index := Some i\<rparr>))"

text \<open>\<^verbatim>\<open>_create_directory\<close>: \<^verbatim>\<open>os.makedirs\<close> raises on the empty name; of the directories
  it creates only the target itself is recorded.\<close>

definition create_directory :: "string \<Rightarrow> world \<Rightarrow> error + world" where
  "create_directory path w =
     (let target_dir = dirname path
      in if target_dir \<in> files w then Inr w
         else if target_dir = [] then Inl FileNotFoundError
         else Inr (w\<lparr>files := insert target_dir (files w)\<rparr>))"

subsection \<open>An instance of \<^verbatim>\<open>str.format\<close> for evaluation\<close>

text \<open>
  \<open>format_index\<close> covers the templates made of plain text, the doubled braces
  \<^verbatim>\<open>{{\<close> and \<^verbatim>\<open>}}\<close>, and the field \<^verbatim>\<open>{index}\<close>; on these it agrees with
  \<^verbatim>\<open>filename.format(index=i)\<close>. Fields with a conversion or a format specification are
  outside the fragment and are not used with it. The general results below hold for any \<open>fmt\<close>.
\<close>

fun str_nat :: "nat \<Rightarrow> string" where
  "str_nat n =
     (if n < 10 then [''0123456789'' ! n]
      else str_nat (n div 10) @ [''0123456789'' ! (n mod 10)])"

declare str_nat.simps [simp del]

definition str_int :: "int \<Rightarrow> string" where
  "str_int i = (if i < 0 then CHR ''-'' # str_nat (nat (- i)) else str_nat (nat i))"

function format_index :: "string \<Rightarrow> int \<Rightarrow> string option" where
  "format_index [] i = Some []"
| "format_index (c # cs) i =
     (if c = CHR ''{'' then
        (if take 1 cs = ''{'' then map_option ((#) CHR ''{'') (format_index (drop 1 cs) i)
         else if take 6 cs = ''index}'' then map_option ((@) (str_int i)) (format_index (drop 6 cs) i)
         else None)
      else if c = CHR ''}'' then
        (if take 1 cs = ''}'' then map_option ((#) CHR ''}'') (format_index (drop 1 cs) i)
         else None)
      else map_option ((#) c) (format_index cs i))"
  by pat_completeness auto
termination
  by (relation "measure (\<lambda>(s, i). length s)") auto

subsection \<open>Collaborators\<close>

text \<open>\<^verbatim>\<open>self.info(message)\<close> appends to the log.\<close>

definition info :: "log_msg \<Rightarrow> world \<Rightarrow> world" where
  "info m w = w\<lparr>infos := infos w @ [m]\<rparr>"

text \<open>
  \<^verbatim>\<open>self.driver.save_screenshot(path)\<close> belongs to the browser driver. What it does at one
  call is an input of the model: it writes the file and returns \<^verbatim>\<open>True\<close>, it returns
  \<^verbatim>\<open>False\<close>, or it raises.
\<close>

datatype shot = Saved | NotSaved | ShotRaised

definition save_screenshot :: "shot \<Rightarrow> string \<Rightarrow> world \<Rightarrow> error + (bool \<times> world)" where
  "save_screenshot shot path w =
     (case shot of
        Saved \<Rightarrow> Inr (True, w\<lparr>files := insert path (files w)\<rparr>)
      | NotSaved \<Rightarrow> Inr (False, w)
      | ShotRaised \<Rightarrow> Inl DriverError)"

text \<open>
  \<^verbatim>\<open>time.sleep(1)\<close> in the thread that calls a keyword: the other threads run meanwhile.
  \<open>env k\<close> is what they do to the world during the sleep numbered \<open>k\<close>; it is an input of the
  model and is not restricted.
\<close>

definition sleep_1 :: "(nat \<Rightarrow> world \<Rightarrow> world) \<Rightarrow> nat \<Rightarrow> world \<Rightarrow> world" where
  "sleep_1 env k w = env k (w\<lparr>slept := slept w + 1\<rparr>)"

subsection \<open>\<^verbatim>\<open>capture_page_screenshot\<close> (lines 88--96)\<close>

definition capture_page_screenshot ::
  "(string \<Rightarrow> int \<Rightarrow> string option) \<Rightarrow> shot \<Rightarrow> string \<Rightarrow> world
     \<Rightarrow> ((error + string option) \<times> world) option" where
  "capture_page_screenshot fmt shot filename w =
     (if \<not> drivers_current w then Some (Inr None, info NoBrowserOpen w)
      else
        (case get_screenshot_path fmt filename w of
           None \<Rightarrow> None
         | Some (Inl e) \<Rightarrow> Some (Inl e, w)
         | Some (Inr path) \<Rightarrow>
             (case create_directory path w of
                Inl e \<Rightarrow> Some (Inl e, w)
              | Inr w1 \<Rightarrow>
                  (case save_screenshot shot path w1 of
                     Inl e \<Rightarrow> Some (Inl e, w1)
                   | Inr (ok, w2) \<Rightarrow>
                       if \<not> ok then Some (Inl (RuntimeError ''Failed to save screenshot''), w2)
                       else Some (Inr (Some path), info (EmbedToLog path 800) w2)))))"

subsection \<open>\<^verbatim>\<open>Screen Record Start\<close>: \<^verbatim>\<open>capture_screenshots\<close> (lines 99--110)\<close>

text \<open>
  The global list is created on first use, the new entry is appended, its position is logged,
  the capture thread is started with \<^verbatim>\<open>(index, filename)\<close> and the position is returned.
  \<open>threads\<close> records the started threads. The body never reads \<^verbatim>\<open>self.drivers.current\<close>.
\<close>

definition qlen :: "world \<Rightarrow> nat" where
  "qlen w = (case screen_video_queue w of None \<Rightarrow> 0 | Some q \<Rightarrow> length q)"

definition new_session :: session where
  "new_session = \<lparr>elapsed = 0, recording = True, frames = [], finished = False\<rparr>"

definition capture_screenshots :: "string \<Rightarrow> world \<Rightarrow> int \<times> world" where
  "capture_screenshots filename w =
     (let q0 = (case screen_video_queue w of None \<Rightarrow> [] | Some q \<Rightarrow> q);
          q1 = q0 @ [new_session];
          index = int (length q1) - 1
      in (index,
          (info (StartRecord index) (w\<lparr>screen_video_queue := Some q1\<rparr>))
            \<lparr>threads := threads w @ [(index, filename)]\<rparr>))"


subsection \<open>The capture thread: \<^verbatim>\<open>_loop_capture_screenshots\<close> (lines 112--125)\<close>

text \<open>The handler \<^verbatim>\<open>except: self.info('Cannot capture screenshots'); time.sleep(1)\<close>.\<close>

definition capture_failed :: "world \<Rightarrow> world" where
  "capture_failed w = (info CannotCapture w)\<lparr>slept := slept w + 1\<rparr>"

text \<open>
  The body of the \<^verbatim>\<open>while\<close>, lines 116--124. \<open>shot\<close> is what the driver does at this
  attempt, \<open>start_time\<close> the clock read before the loop and \<open>now\<close> the clock read at line 121.
  Line 121 is outside the \<^verbatim>\<open>if\<close> of line 119.
\<close>

definition loop_body ::
  "(string \<Rightarrow> int \<Rightarrow> string option) \<Rightarrow> shot \<Rightarrow> real \<Rightarrow> real \<Rightarrow> int \<Rightarrow> string \<Rightarrow> world
     \<Rightarrow> world option" where
  "loop_body fmt shot start_time now index filename w =
     (case get_video_image_path fmt filename w of
        None \<Rightarrow> None
      | Some (Inl e, w1) \<Rightarrow> Some (capture_failed w1)
      | Some (Inr path, w1) \<Rightarrow>
          (case create_directory path w1 of
             Inl e \<Rightarrow> Some (capture_failed w1)
           | Inr w2 \<Rightarrow>
               (case save_screenshot shot path w2 of
                  Inl e \<Rightarrow> Some (capture_failed w2)
                | Inr (ok, w3) \<Rightarrow>
                    (case (if ok then update_session index (\<lambda>s. s\<lparr>frames := frames s @ [path]\<rparr>) w3
                           else Inr w3) of
                       Inl e \<Rightarrow> Some (capture_failed w3)
                     | Inr w4 \<Rightarrow>
                         (case update_session index (\<lambda>s. s\<lparr>elapsed := now - start_time\<rparr>) w4 of
                            Inl e \<Rightarrow> Some (capture_failed w4)
                          | Inr w5 \<Rightarrow> Some w5)))))"

text \<open>
  One pass of the thread: the test of line 115, then either the body or line 125. The test
  and line 125 are outside the \<^verbatim>\<open>try\<close>, so an exception there ends the thread.
\<close>

datatype pass = Continue world | Exited world | Crashed error world

definition loop_pass ::
  "(string \<Rightarrow> int \<Rightarrow> string option) \<Rightarrow> shot \<Rightarrow> real \<Rightarrow> real \<Rightarrow> int \<Rightarrow> string \<Rightarrow> world
     \<Rightarrow> pass option" where
  "loop_pass fmt shot start_time now index filename w =
     (case get_session index w of
        Inl e \<Rightarrow> Some (Crashed e w)
      | Inr s \<Rightarrow>
          if recording s
          then map_option Continue (loop_body fmt shot start_time now index filename w)
          else
            (case update_session index (\<lambda>s. s\<lparr>finished := True\<rparr>) w of
               Inl e \<Rightarrow> Some (Crashed e w)
             | Inr w1 \<Rightarrow> Some (Exited w1)))"

subsection \<open>\<^verbatim>\<open>Screen Record Stop\<close>: \<^verbatim>\<open>stop_recording_and_save_to_mp4\<close> (lines 128--164)\<close>

text \<open>
  The wait of lines 140--146, started with \<open>count = 0\<close>. A poll is one test of
  \<^verbatim>\<open>screen_video_queue[index][3]\<close>.
\<close>

datatype wait_result = Finished int | GaveUp | WaitRaised error

partial_function (option) wait_finishing ::
  "(nat \<Rightarrow> world \<Rightarrow> world) \<Rightarrow> int \<Rightarrow> int \<Rightarrow> world \<Rightarrow> (wait_result \<times> world) option" where
  "wait_finishing env index count w =
     (case get_session index w of
        Inl e \<Rightarrow> Some (WaitRaised e, w)
      | Inr s \<Rightarrow>
          if finished s then Some (Finished count, w)
          else if count + 1 = 5
               then Some (GaveUp, info (CannotStop index) (sleep_1 env (nat count) w))
               else wait_finishing env index (count + 1) (sleep_1 env (nat count) w))"

declare wait_finishing.simps [code]

text \<open>How a call of the keyword ends: it raises, it returns at line 146, it falls through
  the test of line 150, or it writes a video.\<close>

datatype stop_outcome =
    StopRaised error
  | StopGaveUp
  | NoVideo
  | VideoWritten video

text \<open>
  Lines 147--164. The frames handed to the writer are those at the positions
  \<^verbatim>\<open>range(1, len(frames))\<close>. Reading the first frame gives \<^verbatim>\<open>None\<close> for a file that is
  not an image, and \<^verbatim>\<open>img.shape\<close> then raises. The rate is computed first, at line 152,
  and an infinite quotient raises there. The encoder is taken to create its file.
\<close>

definition save_to_mp4 ::
  "(string \<Rightarrow> int \<Rightarrow> string option) \<Rightarrow> int \<Rightarrow> string \<Rightarrow> int \<Rightarrow> world
     \<Rightarrow> (stop_outcome \<times> world) option" where
  "save_to_mp4 fmt index video_name count w =
     (case get_session index w of
        Inl e \<Rightarrow> Some (StopRaised e, info (WaitSeconds count) w)
      | Inr s \<Rightarrow>
          (let w1 = info (RecordTime (elapsed s) (length (frames s))) (info (WaitSeconds count) w)
           in if elapsed s \<noteq> 0 \<and> length (frames s) > 0 then
                (case video_fps (length (frames s)) (elapsed s) of
                   Inl e \<Rightarrow> Some (StopRaised e, w1)
                 | Inr fps \<Rightarrow>
                     (case image_shape w1 (frames s ! 0) of
                        None \<Rightarrow> Some (StopRaised AttributeError, w1)
                      | Some (height, width) \<Rightarrow>
                          (case get_video_path fmt video_name w1 of
                             None \<Rightarrow> None
                           | Some (Inl e, w2) \<Rightarrow> Some (StopRaised e, w2)
                           | Some (Inr path, w2) \<Rightarrow>
                               (let v = \<lparr>vpath = path, vfps = fps, vsize = (width, height),
                                         vframes =
                                           map (\<lambda>i. frames s ! i) [1..<length (frames s)]\<rparr>
                                in Some (VideoWritten v,
                                         info (WriteDone index)
                                           (w2\<lparr>videos := videos w2 @ [v],
                                               files := insert path (files w2)\<rparr>))))))
              else Some (NoVideo, w1)))"

definition wait_and_save ::
  "(string \<Rightarrow> int \<Rightarrow> string option) \<Rightarrow> (nat \<Rightarrow> world \<Rightarrow> world) \<Rightarrow> int \<Rightarrow> string \<Rightarrow> world
     \<Rightarrow> (stop_outcome \<times> world) option" where
  "wait_and_save fmt env index video_name w =
     (case wait_finishing env index 0 w of
        None \<Rightarrow> None
      | Some (WaitRaised e, w1) \<Rightarrow> Some (StopRaised e, w1)
      | Some (GaveUp, w1) \<Rightarrow> Some (StopGaveUp, w1)
      | Some (Finished count, w1) \<Rightarrow> save_to_mp4 fmt index video_name count w1)"

text \<open>Lines 138--139: the log entry, then \<^verbatim>\<open>screen_video_queue[index][1] = False\<close>.\<close>

definition flag_off :: "int \<Rightarrow> world \<Rightarrow> error + world" where
  "flag_off index w =
     update_session index (\<lambda>s. s\<lparr>recording := False\<rparr>) (info (StopRecord index) w)"

text \<open>
  The keyword. The handle is \<^verbatim>\<open>None\<close> or an integer; \<^verbatim>\<open>int(index)\<close> on other values is
  not modelled. Line 135 compares with the length from above only.
\<close>

definition stop_recording_and_save_to_mp4 ::
  "(string \<Rightarrow> int \<Rightarrow> string option) \<Rightarrow> (nat \<Rightarrow> world \<Rightarrow> world) \<Rightarrow> int option \<Rightarrow> string \<Rightarrow> world
     \<Rightarrow> (stop_outcome \<times> world) option" where
  "stop_recording_and_save_to_mp4 fmt env index video_name w =
     (case screen_video_queue w of
        None \<Rightarrow> Some (StopRaised (RuntimeError ''screen video queue is not init''), w)
      | Some q \<Rightarrow>
          (case index of
             None \<Rightarrow>
               Some (StopRaised
                 (RuntimeError ''index is null or invalid, please make sure index is correct''), w)
           | Some i \<Rightarrow>
               if i \<ge> int (length q) then
                 Some (StopRaised
                   (RuntimeError ''index is null or invalid, please make sure index is correct''), w)
               else
                 (case flag_off i w of
                    Inl e \<Rightarrow> Some (StopRaised e, info (StopRecord i) w)
                  | Inr w1 \<Rightarrow> wait_and_save fmt env i video_name w1)))"

subsection \<open>Notions used to state the results\<close>

text \<open>
  \<open>first_free fmt w t c k s\<close>: for the template \<open>t\<close>, \<open>k\<close> is the first counter value after
  \<open>c\<close> whose formatted name \<open>s\<close> gives a path that does not exist in \<open>w\<close>, the formatted name
  differing from the template at every value tried.
\<close>

definition first_free ::
  "(string \<Rightarrow> int \<Rightarrow> string option) \<Rightarrow> world \<Rightarrow> string \<Rightarrow> int \<Rightarrow> int \<Rightarrow> string \<Rightarrow> bool" where
  "first_free fmt w t c k s \<longleftrightarrow>
     c < k \<and> fmt t k = Some s \<and> s \<noteq> t \<and> path_join (directory w) s \<notin> files w \<and>
     (\<forall>i \<in> {c<..<k}. \<exists>s'. fmt t i = Some s' \<and> s' \<noteq> t \<and> path_join (directory w) s' \<in> files w)"

text \<open>The world at the poll numbered \<open>k\<close> of the wait, that is after \<open>k\<close> sleeps, and the value
  of the finished flag read there (an unreadable entry counts as not finished).\<close>

primrec poll_world :: "(nat \<Rightarrow> world \<Rightarrow> world) \<Rightarrow> nat \<Rightarrow> world \<Rightarrow> world" where
  "poll_world env 0 w = w"
| "poll_world env (Suc k) w = sleep_1 env k (poll_world env k w)"

definition finished_at :: "(nat \<Rightarrow> world \<Rightarrow> world) \<Rightarrow> int \<Rightarrow> nat \<Rightarrow> world \<Rightarrow> bool" where
  "finished_at env index k w =
     (case get_session index (poll_world env k w) of Inl e \<Rightarrow> False | Inr s \<Rightarrow> finished s)"

text \<open>The capture thread run over a finite list of attempts, each with what the driver does
  and the clock read at line 121; the run stops early when the thread exits.\<close>

fun capture_loop ::
  "(string \<Rightarrow> int \<Rightarrow> string option) \<Rightarrow> real \<Rightarrow> int \<Rightarrow> string \<Rightarrow> (shot \<times> real) list \<Rightarrow> world
     \<Rightarrow> pass option" where
  "capture_loop fmt start_time index filename [] w = Some (Continue w)"
| "capture_loop fmt start_time index filename ((shot, now) # evs) w =
     (case loop_pass fmt shot start_time now index filename w of
        Some (Continue w1) \<Rightarrow> capture_loop fmt start_time index filename evs w1
      | r \<Rightarrow> r)"

subsection \<open>Concrete worlds\<close>

text \<open>A process in which no keyword has run yet: output directory \<^verbatim>\<open>/out\<close>, a browser open,
  every screenshot an image of 600 rows and 800 columns.\<close>

definition fresh :: world where
  "fresh =
     \<lparr>screen_video_queue = None, g_screenshots_index = None, g_video_index = None,
      screenshot_root_directory = None, log_dir = ''/out'', drivers_current = True,
      files = {''/out''}, image_shape = (\<lambda>p. Some (600, 800)), infos = [], slept = 0,
      threads = [], videos = []\<rparr>"

text \<open>The same process with no browser open.\<close>

definition no_browser :: world where
  "no_browser = fresh\<lparr>drivers_current := False\<rparr>"

text \<open>Other threads that do nothing during a sleep.\<close>

definition idle :: "nat \<Rightarrow> world \<Rightarrow> world" where
  "idle k w = w"

text \<open>
  The scenario of one recording: the keyword is called with \<^verbatim>\<open>frame-{index}.png\<close> in
  \<open>fresh\<close>, the thread reads the clock at 100 and makes six successful captures, the last
  one at 103. \<open>recorded\<close> is the world this leads to.
\<close>

definition six_shots :: "(shot \<times> real) list" where
  "six_shots =
     [(Saved, 100.5), (Saved, 101), (Saved, 101.5), (Saved, 102), (Saved, 102.5), (Saved, 103)]"

definition six_frames :: "string list" where
  "six_frames =
     [''/out/frame-1.png'', ''/out/frame-2.png'', ''/out/frame-3.png'',
      ''/out/frame-4.png'', ''/out/frame-5.png'', ''/out/frame-6.png'']"

definition recorded :: world where
  "recorded =
     \<lparr>screen_video_queue =
        Some [\<lparr>elapsed = 3, recording = True, frames = six_frames, finished = False\<rparr>],
      g_screenshots_index = Some 6, g_video_index = None,
      screenshot_root_directory = None, log_dir = ''/out'', drivers_current = True,
      files = set six_frames \<union> {''/out''}, image_shape = (\<lambda>p. Some (600, 800)),
      infos = [StartRecord 0], slept = 0, threads = [(0, ''frame-{index}.png'')],
      videos = []\<rparr>"

text \<open>\<open>started\<close>: \<open>fresh\<close> after one call of Start. \<open>captured_once\<close>: \<open>fresh\<close> after one
  \<^verbatim>\<open>capture_page_screenshot\<close> with the name \<^verbatim>\<open>custom_name.png\<close>. \<open>two_taken\<close>: \<open>fresh\<close> with
  the files \<^verbatim>\<open>f-1.png\<close> and \<^verbatim>\<open>f-2.png\<close> present.\<close>

definition started :: world where
  "started =
     fresh\<lparr>screen_video_queue := Some [new_session], infos := [StartRecord 0],
           threads := [(0, ''frame-{index}.png'')]\<rparr>"

definition captured_once :: world where
  "captured_once =
     fresh\<lparr>files := {''/out/custom_name.png'', ''/out''},
           infos := [EmbedToLog ''/out/custom_name.png'' 800]\<rparr>"

definition two_taken :: world where
  "two_taken = fresh\<lparr>files := {''/out'', ''/out/f-1.png'', ''/out/f-2.png''}\<rparr>"

text \<open>Other threads in which the capture thread of entry 0 makes its next pass during the
  first sleep, and nothing else happens.\<close>

definition thread_exits :: "nat \<Rightarrow> world \<Rightarrow> world" where
  "thread_exits k w =
     (if k = 0 then
        (case loop_pass format_index Saved 100 104 0 ''frame-{index}.png'' w of
           Some (Exited w1) \<Rightarrow> w1
         | _ \<Rightarrow> w)
      else w)"

section \<open>Auxiliary lemmas\<close>

subsection \<open>Rounding to a double\<close>

lemma pow2_pos [simp]: "0 < pow2 e"
  by (simp add: pow2_def)

lemma pow2_powr: "pow2 e = 2 powr (of_int e)"
  by (simp add: pow2_def powr_int)


lemma round_even_le: "y \<le> of_int z \<Longrightarrow> round_even y \<le> z"
  unfolding round_even_def Let_def by (auto; linarith)

lemma round_even_ge: "of_int z \<le> y \<Longrightarrow> z \<le> round_even y"
  unfolding round_even_def Let_def by (auto; linarith)

lemma round_even_upper: "of_int (round_even y) \<le> y + 1 / 2"
  unfolding round_even_def Let_def by (auto; linarith)

text \<open>A positive number below 1 rounds to a double between 0 and 1.\<close>

lemma to_double_below_one:
  assumes "0 < q" and "q < 1"
  shows "\<exists>r. to_double q = Some r \<and> 0 \<le> r \<and> r \<le> 1"
proof -
  define e where "e = max \<lfloor>log 2 q\<rfloor> (- 1022)"
  define Z :: int where "Z = 2 ^ nat (52 - e)"
  define u where "u = double_ulp \<bar>q\<bar>"
  from assms have "log 2 q < 0" by simp
  then have "\<lfloor>log 2 q\<rfloor> < 0" by linarith
  then have e: "e < 0" by (simp add: e_def)
  with assms have u: "u = 1 / of_int Z"
    by (simp add: u_def double_ulp_def e_def [symmetric] pow2_def Z_def nat_diff_distrib)
  have Zpos: "0 < Z" by (simp add: Z_def)
  from assms u Zpos have "q / u \<le> of_int Z" by (simp add: mult_left_le_one_le)
  then have hi: "round_even (q / u) \<le> Z" by (rule round_even_le)
  from assms u Zpos have "of_int 0 \<le> q / u" by simp
  then have lo: "0 \<le> round_even (q / u)" by (rule round_even_ge)
  define r where "r = of_int (round_even (q / u)) * u"
  from lo u Zpos have r0: "0 \<le> r" by (simp add: r_def)
  from hi u Zpos have r1: "r \<le> 1" by (simp add: r_def divide_le_eq)
  have "1 < overflow_limit" unfolding overflow_limit_def by (rule one_less_power) simp_all
  with r1 have nov: "\<not> overflow_limit \<le> r" by simp
  have "to_double q = (if overflow_limit \<le> r then None else Some (sgn q * r))"
    unfolding to_double_def Let_def r_def u_def using assms by simp
  with nov assms have "to_double q = Some r" by simp
  with r0 r1 show ?thesis by blast
qed

text \<open>
  A quotient \<open>N / k\<close> of natural numbers with \<open>N \<le> 2 ^ 52\<close> that is at least 1 rounds to a
  double with the same integer part: the doubles at its magnitude include the integers, and
  the quotient is at least \<open>1 / k\<close>, hence at least one spacing, below the next integer.
\<close>

lemma to_double_floor:
  assumes k: "0 < k" and N: "N \<le> 2 ^ 52" and q1: "1 \<le> real N / real k"
  shows "\<exists>r. to_double (real N / real k) = Some r \<and> 0 \<le> r \<and> \<lfloor>r\<rfloor> = \<lfloor>real N / real k\<rfloor>"
proof -
  define q where "q = real N / real k"
  define e where "e = \<lfloor>log 2 q\<rfloor>"
  define Z :: int where "Z = 2 ^ nat (52 - e)"
  define u where "u = double_ulp \<bar>q\<bar>"
  define m where "m = \<lfloor>q\<rfloor>"
  from q1 have qpos: "0 < q" "1 \<le> q" by (simp_all add: q_def)
  have Nr: "real N \<le> 2 ^ 52"
  proof -
    from N have "real N \<le> real (2 ^ 52)" by (rule of_nat_mono)
    then show ?thesis by simp
  qed
  have qle: "q \<le> 2 ^ 52"
  proof -
    from k have "real N / real k \<le> real N" by (simp add: divide_le_eq mult_le_cancel_left1)
    also have "real N \<le> 2 ^ 52" by (rule Nr)
    finally show ?thesis by (simp add: q_def)
  qed
  from qpos have "0 \<le> log 2 q" by simp
  then have e0: "0 \<le> e" by (simp add: e_def)
  have "log 2 q \<le> log 2 (2 ^ 52)"
    using qpos qle by (subst log_le_cancel_iff) simp_all
  also have "log 2 (2 ^ 52) = real 52"
    by (rule log_pow_cancel) simp_all
  finally have "log 2 q \<le> 52" by simp
  then have e52: "e \<le> 52" unfolding e_def by linarith
  from qpos have pw: "2 powr (of_int e) \<le> q"
    using floor_log_eq_powr_iff [of q 2 e] by (simp add: e_def)
  have upow: "u = 2 powr (of_int (e - 52))"
    using e0 qpos by (simp add: u_def double_ulp_def e_def [symmetric] pow2_powr)
  have Zr: "(of_int Z :: real) = 2 powr (of_int (52 - e))"
    using e52 by (simp add: Z_def powr_int del: of_int_diff)
  have uZ: "u * of_int Z = 1"
    by (simp add: upow Zr powr_add [symmetric] del: of_int_diff)
  have upos: "0 < u" by (simp add: upow)
  have Zpos: "0 < Z" by (simp add: Z_def)
  have qu: "q / u = q * of_int Z"
    using uZ upos by (simp add: field_simps)
  have ule: "u \<le> q / 2 ^ 52"
  proof -
    have "u = 2 powr (of_int e) / 2 ^ 52"
      by (simp add: upow powr_diff)
    with pw show ?thesis by (simp add: divide_right_mono)
  qed
  have "real k * u \<le> real k * (q / 2 ^ 52)"
    using ule k by (simp add: mult_left_mono)
  also have "\<dots> = real N / 2 ^ 52" using k by (simp add: q_def)
  also have "\<dots> \<le> 1" using Nr by simp
  finally have ku: "real k * u \<le> 1" .
  have gap: "u \<le> of_int (m + 1) - q"
  proof -
    have "q < of_int (m + 1)" by (simp add: m_def)
    then have "real N < of_int (m + 1) * real k"
      using k by (simp add: q_def divide_less_eq)
    then have "(of_int (int N) :: real) < of_int ((m + 1) * int k)" by simp
    then have "int N < (m + 1) * int k" by (simp only: of_int_less_iff)
    then have "int N + 1 \<le> (m + 1) * int k" by simp
    then have "(of_int (int N + 1) :: real) \<le> of_int ((m + 1) * int k)"
      by (simp only: of_int_le_iff)
    then have "real N + 1 \<le> of_int (m + 1) * real k" by simp
    then have "1 / real k \<le> of_int (m + 1) - q"
      using k by (simp add: q_def field_simps)
    moreover from ku k have "u \<le> 1 / real k" by (simp add: field_simps)
    ultimately show ?thesis by simp
  qed
  have "q / u \<le> of_int ((m + 1) * Z - 1)"
  proof -
    from gap have "q \<le> of_int (m + 1) - u" by simp
    then have "q * of_int Z \<le> (of_int (m + 1) - u) * of_int Z"
      using Zpos by (simp add: mult_right_mono)
    also have "\<dots> = of_int (m + 1) * of_int Z - u * of_int Z" by (simp add: algebra_simps)
    also have "\<dots> = of_int ((m + 1) * Z - 1)" by (simp add: uZ)
    finally show ?thesis by (simp add: qu)
  qed
  then have hi: "round_even (q / u) \<le> (m + 1) * Z - 1" by (rule round_even_le)
  have "of_int (m * Z) \<le> q / u"
  proof -
    have "of_int m \<le> q" by (simp add: m_def)
    then show ?thesis using Zpos by (simp add: qu mult_right_mono)
  qed
  then have lo: "m * Z \<le> round_even (q / u)" by (rule round_even_ge)
  define r where "r = of_int (round_even (q / u)) * u"
  have rlo: "of_int m \<le> r"
  proof -
    from lo have "of_int (m * Z) * u \<le> r"
      unfolding r_def using upos by (simp add: mult_right_mono del: of_int_mult)
    moreover have "of_int (m * Z) * u = of_int m * (u * of_int Z)" by (simp add: algebra_simps)
    ultimately show ?thesis by (simp only: uZ mult_1_right)
  qed
  have rhi: "r < of_int (m + 1)"
  proof -
    from hi have "r \<le> of_int ((m + 1) * Z - 1) * u"
      unfolding r_def using upos by (simp add: mult_right_mono del: of_int_mult of_int_diff)
    also have "\<dots> = of_int (m + 1) * (u * of_int Z) - u" by (simp add: algebra_simps)
    also have "\<dots> = of_int (m + 1) - u" by (simp only: uZ mult_1_right)
    also have "\<dots> < of_int (m + 1)" using upos by simp
    finally show ?thesis .
  qed
  from rlo rhi have fl: "\<lfloor>r\<rfloor> = m" by (simp add: floor_unique)
  from qpos have m0: "0 \<le> m" by (simp add: m_def)
  then have "(0::real) \<le> of_int m" by simp
  with rlo have r0: "0 \<le> r" by linarith
  have "of_int (m + 1) \<le> (2 ^ 52 + 1 :: real)"
  proof -
    have "of_int m \<le> q" by (simp add: m_def)
    with qle show ?thesis by simp
  qed
  moreover have "(2 ^ 52 + 1 :: real) \<le> 2 ^ 53" by simp
  moreover have "(2 ^ 53 :: real) < overflow_limit"
    unfolding overflow_limit_def by (rule power_strict_increasing) simp_all
  ultimately have "r < overflow_limit" using rhi by linarith
  then have nov: "\<not> overflow_limit \<le> r" by simp
  have "to_double q = (if overflow_limit \<le> r then None else Some (sgn q * r))"
    unfolding to_double_def Let_def r_def u_def using qpos by simp
  with nov qpos have "to_double q = Some r" by simp
  with r0 fl show ?thesis by (auto simp: q_def m_def)
qed


text \<open>On elapsed times that are multiples of \<open>2 ^ - g\<close>, with \<open>n * 2 ^ g \<le> 2 ^ 52\<close>, the
  rate computed in doubles is the one computed exactly.\<close>

lemma video_fps_grid:
  assumes n: "0 < n" and k: "0 < k" and b: "n * 2 ^ g \<le> 2 ^ 52"
  shows "video_fps n (real k / 2 ^ g) =
           Inr (if \<lfloor>real n / (real k / 2 ^ g)\<rfloor> < 1 \<or> n < 5 then 1
                else \<lfloor>real n / (real k / 2 ^ g)\<rfloor>)"
proof -
  define q where "q = real (n * 2 ^ g) / real k"
  have qeq: "real n / (real k / 2 ^ g) = q" by (simp add: q_def)
  from n k have qpos: "0 < q" by (simp add: q_def)
  have main: "(case to_double q of
                 None \<Rightarrow> Inl OverflowError
               | Some q' \<Rightarrow> Inr (fps_of_quotient q' n)) =
              Inr (if \<lfloor>q\<rfloor> < 1 \<or> n < 5 then 1 else \<lfloor>q\<rfloor>)"
  proof (cases "q < 1")
    case True
    from to_double_below_one [OF qpos True] obtain r where
      r: "to_double q = Some r" "0 \<le> r" "r \<le> 1" by blast
    from r have "\<lfloor>r\<rfloor> \<le> 1" by linarith
    with r have "fps_of_quotient r n = 1"
      by (auto simp: fps_of_quotient_def py_int_def Let_def)
    moreover from True qpos have "\<lfloor>q\<rfloor> < 1" by linarith
    ultimately show ?thesis using r by simp
  next
    case False
    then have "1 \<le> real (n * 2 ^ g) / real k" by (simp add: q_def)
    from to_double_floor [OF k b this] obtain r where
      r: "to_double q = Some r" "0 \<le> r" "\<lfloor>r\<rfloor> = \<lfloor>q\<rfloor>" by (auto simp: q_def)
    then have "py_int r = \<lfloor>q\<rfloor>" by (simp add: py_int_def)
    with r show ?thesis by (simp add: fps_of_quotient_def Let_def)
  qed
  show ?thesis unfolding video_fps_def float_div_def qeq by (rule main)
qed

lemma video_fps_6_3: "video_fps 6 3 = Inr 2"
  using video_fps_grid [of 6 3 0] by simp

lemma video_fps_six: "video_fps (Suc (Suc (Suc (Suc (Suc (Suc 0)))))) 3 = Inr 2"
  using video_fps_6_3 by (simp add: eval_nat_numeral)

subsection \<open>The path loop\<close>

lemma index_loop_same:
  "fmt t (c + 1) = Some t \<Longrightarrow> index_loop fmt fs dir t c = Some (c + 1, Inr (path_join dir t))"
  by (subst index_loop.simps) simp

lemma index_loop_step:
  "fmt t (c + 1) = Some s \<Longrightarrow> s \<noteq> t \<Longrightarrow> path_join dir s \<in> fs \<Longrightarrow>
   index_loop fmt fs dir t c = index_loop fmt fs dir t (c + 1)"
  by (subst index_loop.simps) simp

lemma index_loop_stop:
  "fmt t (c + 1) = Some s \<Longrightarrow> path_join dir s \<notin> fs \<Longrightarrow>
   index_loop fmt fs dir t c = Some (c + 1, Inr (path_join dir s))"
  by (subst index_loop.simps) simp

text \<open>The loop walks over the names that exist and stops at the first one that does not:
  induction on the distance to that counter value.\<close>

lemma index_loop_first_free:
  assumes "c < k"
    and "\<forall>i. c < i \<and> i < k \<longrightarrow> (\<exists>s'. fmt t i = Some s' \<and> s' \<noteq> t \<and> path_join dir s' \<in> fs)"
    and "fmt t k = Some s" and "path_join dir s \<notin> fs"
  shows "index_loop fmt fs dir t c = Some (k, Inr (path_join dir s))"
  using assms
proof (induction "nat (k - c)" arbitrary: c)
  case 0
  then show ?case by simp
next
  case (Suc n)
  show ?case
  proof (cases "c + 1 = k")
    case True
    with Suc.prems show ?thesis by (simp add: index_loop_stop)
  next
    case False
    with Suc.prems have lt: "c + 1 < k" by simp
    with Suc.prems obtain s' where s': "fmt t (c + 1) = Some s'" "s' \<noteq> t" "path_join dir s' \<in> fs"
      by (metis zless_add1_eq)
    have "index_loop fmt fs dir t (c + 1) = Some (k, Inr (path_join dir s))"
    proof (rule Suc.hyps(1))
      show "n = nat (k - (c + 1))" using Suc.hyps(2) by simp
      show "c + 1 < k" by (rule lt)
      show "\<forall>i. c + 1 < i \<and> i < k \<longrightarrow> (\<exists>s'. fmt t i = Some s' \<and> s' \<noteq> t \<and> path_join dir s' \<in> fs)"
        using Suc.prems(2) by simp
      show "fmt t k = Some s" by (rule Suc.prems(3))
      show "path_join dir s \<notin> fs" by (rule Suc.prems(4))
    qed
    with s' show ?thesis by (simp add: index_loop_step)
  qed
qed

text \<open>Whenever the loop returns, the counter has grown: fixpoint induction on the loop.\<close>

lemma index_loop_increases_fst:
  assumes "index_loop fmt fs dir t c = Some y"
  shows "c < fst y"
proof (rule index_loop.raw_induct [where P = "\<lambda>fmt fs dir t c y. c < fst y", OF _ assms])
  fix f :: "(string \<Rightarrow> int \<Rightarrow> string option) \<Rightarrow> string set \<Rightarrow> string \<Rightarrow> string \<Rightarrow> int
      \<Rightarrow> (int \<times> (error + string)) option"
    and fmt' fs' dir' t' c' y'
  assume ih: "\<And>fmt fs dir t c y. f fmt fs dir t c = Some y \<Longrightarrow> c < fst y"
    and eq: "(case fmt' t' (c' + 1) of
        None \<Rightarrow> Some (c' + 1, Inl FormatError)
      | Some formatted \<Rightarrow>
          if formatted = t' \<or> path_join dir' formatted \<notin> fs'
          then Some (c' + 1, Inr (path_join dir' formatted))
          else f fmt' fs' dir' t' (c' + 1)) = Some y'"
  show "c' < fst y'"
  proof (cases "fmt' t' (c' + 1)")
    case None
    with eq show ?thesis by auto
  next
    case (Some formatted)
    show ?thesis
    proof (cases "formatted = t' \<or> path_join dir' formatted \<notin> fs'")
      case True
      with eq Some show ?thesis by auto
    next
      case False
      with eq Some have "f fmt' fs' dir' t' (c' + 1) = Some y'" by simp
      from ih [OF this] show ?thesis by simp
    qed
  qed
qed

lemma index_loop_increases:
  "index_loop fmt fs dir t c = Some (k, r) \<Longrightarrow> c < k"
  using index_loop_increases_fst by fastforce

lemma get_video_path_world:
  "get_video_path fmt t w = Some (r, w') \<Longrightarrow> \<exists>k. w' = w\<lparr>g_video_index := Some k\<rparr> \<and> counter_value (g_video_index w) < k"
  by (auto simp: get_video_path_def split: option.splits dest: index_loop_increases)

lemma get_video_image_path_world:
  "get_video_image_path fmt t w = Some (r, w') \<Longrightarrow>
     \<exists>k. w' = w\<lparr>g_screenshots_index := Some k\<rparr> \<and> counter_value (g_screenshots_index w) < k"
  by (auto simp: get_video_image_path_def split: option.splits dest: index_loop_increases)

lemma first_free_loop:
  assumes "first_free fmt w t c k s"
  shows "index_loop fmt (files w) (directory w) t c = Some (k, Inr (path_join (directory w) s))"
proof (rule index_loop_first_free)
  from assms show "c < k" by (simp add: first_free_def)
  from assms show "\<forall>i. c < i \<and> i < k \<longrightarrow>
      (\<exists>s'. fmt t i = Some s' \<and> s' \<noteq> t \<and> path_join (directory w) s' \<in> files w)"
    by (simp add: first_free_def)
  from assms show "fmt t k = Some s" by (simp add: first_free_def)
  from assms show "path_join (directory w) s \<notin> files w" by (simp add: first_free_def)
qed

text \<open>When every later counter value gives a changed name whose path exists, the loop never
  returns.\<close>

lemma index_loop_never_returns:
  assumes "\<forall>i>c. \<exists>s. fmt t i = Some s \<and> s \<noteq> t \<and> path_join dir s \<in> fs"
  shows "index_loop fmt fs dir t c = None"
proof (rule ccontr)
  assume "index_loop fmt fs dir t c \<noteq> None"
  then obtain y where y: "index_loop fmt fs dir t c = Some y" by auto
  have "\<not> (\<forall>i>c. \<exists>s. fmt t i = Some s \<and> s \<noteq> t \<and> path_join dir s \<in> fs)"
  proof (rule index_loop.raw_induct
      [where P = "\<lambda>fmt fs dir t c y. \<not> (\<forall>i>c. \<exists>s. fmt t i = Some s \<and> s \<noteq> t \<and> path_join dir s \<in> fs)",
       OF _ y])
    fix f :: "(string \<Rightarrow> int \<Rightarrow> string option) \<Rightarrow> string set \<Rightarrow> string \<Rightarrow> string \<Rightarrow> int
        \<Rightarrow> (int \<times> (error + string)) option"
      and fmt' fs' dir' t' c' y'
    assume ih: "\<And>fmt fs dir t c y. f fmt fs dir t c = Some y \<Longrightarrow>
        \<not> (\<forall>i>c. \<exists>s. fmt t i = Some s \<and> s \<noteq> t \<and> path_join dir s \<in> fs)"
      and eq: "(case fmt' t' (c' + 1) of
          None \<Rightarrow> Some (c' + 1, Inl FormatError)
        | Some formatted \<Rightarrow>
            if formatted = t' \<or> path_join dir' formatted \<notin> fs'
            then Some (c' + 1, Inr (path_join dir' formatted))
            else f fmt' fs' dir' t' (c' + 1)) = Some y'"
    show "\<not> (\<forall>i>c'. \<exists>s. fmt' t' i = Some s \<and> s \<noteq> t' \<and> path_join dir' s \<in> fs')"
    proof
      assume all: "\<forall>i>c'. \<exists>s. fmt' t' i = Some s \<and> s \<noteq> t' \<and> path_join dir' s \<in> fs'"
      then obtain s where s: "fmt' t' (c' + 1) = Some s" "s \<noteq> t'" "path_join dir' s \<in> fs'"
        by (metis zless_add1_eq)
      with eq have "f fmt' fs' dir' t' (c' + 1) = Some y'" by simp
      from ih [OF this] all show False by auto
    qed
  qed
  with assms show False by blast
qed

text \<open>On a template without braces the instance \<open>format_index\<close> returns the template itself,
  whatever the counter value.\<close>

lemma format_index_plain:
  "CHR ''{'' \<notin> set t \<Longrightarrow> CHR ''}'' \<notin> set t \<Longrightarrow> format_index t i = Some t"
  by (induction t) auto

subsection \<open>Reading and writing the queue\<close>

lemma get_session_simps [simp]:
  "get_session i (info m w) = get_session i w"
  "get_session i (w\<lparr>slept := n\<rparr>) = get_session i w"
  "get_session i (w\<lparr>files := fs\<rparr>) = get_session i w"
  "get_session i (w\<lparr>g_screenshots_index := g\<rparr>) = get_session i w"
  "get_session i (w\<lparr>g_video_index := g\<rparr>) = get_session i w"
  by (simp_all add: get_session_def info_def)

lemma get_session_files [simp]:
  "get_session i (capture_failed w) = get_session i w"
  by (simp add: capture_failed_def get_session_def info_def)

lemma py_index_nonneg: "0 \<le> i \<Longrightarrow> i < int n \<Longrightarrow> py_index n i = Some (nat i)"
  by (simp add: py_index_def)

lemma py_index_neg: "- int n \<le> i \<Longrightarrow> i < 0 \<Longrightarrow> py_index n i = Some (nat (int n + i))"
  by (simp add: py_index_def)

lemma py_index_less: "py_index n i = Some k \<Longrightarrow> k < n"
  by (auto simp: py_index_def split: if_splits)

lemma update_session_ok:
  assumes "get_session i w = Inr s"
  shows "\<exists>qs. update_session i f w = Inr (w\<lparr>screen_video_queue := Some qs\<rparr>) \<and>
           length qs = qlen w \<and>
           get_session i (w\<lparr>screen_video_queue := Some qs\<rparr>) = Inr (f s)"
proof -
  from assms obtain q k where q: "screen_video_queue w = Some q"
    and k: "py_index (length q) i = Some k" and s: "s = q ! k"
    by (auto simp: get_session_def split: option.splits)
  from k have "k < length q" by (rule py_index_less)
  with q k s have "update_session i f w = Inr (w\<lparr>screen_video_queue := Some (q[k := f s])\<rparr>)"
    "length (q[k := f s]) = qlen w"
    "get_session i (w\<lparr>screen_video_queue := Some (q[k := f s])\<rparr>) = Inr (f s)"
    by (simp_all add: update_session_def qlen_def get_session_def)
  then show ?thesis by blast
qed


lemma qlen_simps [simp]:
  "qlen (info m w) = qlen w"
  "qlen (w\<lparr>slept := n\<rparr>) = qlen w"
  "qlen (w\<lparr>files := fs\<rparr>) = qlen w"
  "qlen (w\<lparr>g_screenshots_index := g\<rparr>) = qlen w"
  "qlen (w\<lparr>g_video_index := g\<rparr>) = qlen w"
  "qlen (w\<lparr>threads := ts\<rparr>) = qlen w"
  "qlen (capture_failed w) = qlen w"
  by (simp_all add: qlen_def info_def capture_failed_def)

lemma flag_off_valid:
  assumes "screen_video_queue w = Some q" and "py_index (length q) i = Some k"
  shows "flag_off i w =
     Inr ((info (StopRecord i) w)\<lparr>screen_video_queue := Some (q[k := (q ! k)\<lparr>recording := False\<rparr>])\<rparr>)"
  using assms by (simp add: flag_off_def update_session_def info_def)




subsection \<open>What a capture pass leaves unchanged\<close>

lemma create_directory_world:
  "create_directory p w = Inr w' \<Longrightarrow> \<exists>fs. w' = w\<lparr>files := fs\<rparr>"
  by (auto simp: create_directory_def Let_def split: if_splits intro: exI [of _ "files w"])




subsection \<open>The wait loop\<close>

lemma all_less_5: "(\<forall>k<5. P (k::nat)) \<longleftrightarrow> P 0 \<and> P 1 \<and> P 2 \<and> P 3 \<and> P 4"
proof -
  have "\<And>k::nat. k < 5 \<longleftrightarrow> k = 0 \<or> k = 1 \<or> k = 2 \<or> k = 3 \<or> k = 4" by arith
  then show ?thesis by auto
qed

lemma ex_less_5: "(\<exists>k<5. P (k::nat)) \<longleftrightarrow> P 0 \<or> P 1 \<or> P 2 \<or> P 3 \<or> P 4"
proof -
  have "\<And>k::nat. k < 5 \<longleftrightarrow> k = 0 \<or> k = 1 \<or> k = 2 \<or> k = 3 \<or> k = 4" by arith
  then show ?thesis by auto
qed

lemma wait_4:
  "wait_finishing env i 4 w =
     (case get_session i w of
        Inl e \<Rightarrow> Some (WaitRaised e, w)
      | Inr s \<Rightarrow> if finished s then Some (Finished 4, w)
                 else Some (GaveUp, info (CannotStop i) (sleep_1 env 4 w)))"
  by (subst wait_finishing.simps) (simp split: sum.splits)

lemma wait_lt:
  "c < 4 \<Longrightarrow> 0 \<le> c \<Longrightarrow> wait_finishing env i c w =
     (case get_session i w of
        Inl e \<Rightarrow> Some (WaitRaised e, w)
      | Inr s \<Rightarrow> if finished s then Some (Finished c, w)
                 else wait_finishing env i (c + 1) (sleep_1 env (nat c) w))"
  by (subst wait_finishing.simps) (simp split: sum.splits)

text \<open>Started at 0 the wait always returns: it gives up after the fifth sleep, or it stops
  at one of the polls 0 to 4, where the flag was set or the entry could not be read.\<close>

lemma wait_finishing_cases:
  "\<exists>r w2. wait_finishing env i 0 w = Some (r, w2) \<and>
     ((r = GaveUp \<and> w2 = info (CannotStop i) (poll_world env 5 w) \<and>
         (\<forall>k<5. \<not> finished_at env i k w))
      \<or> (\<exists>k<5. r = Finished (int k) \<and> w2 = poll_world env k w \<and> finished_at env i k w)
      \<or> (\<exists>k<5. \<exists>e. r = WaitRaised e \<and> w2 = poll_world env k w \<and> get_session i w2 = Inl e))"
  unfolding all_less_5 ex_less_5
  by (simp add: wait_lt wait_4 finished_at_def eval_nat_numeral split: sum.splits)

lemma wait_gave_up:
  assumes "\<forall>k<5. \<exists>s. get_session i (poll_world env k w) = Inr s \<and> \<not> finished s"
  shows "wait_finishing env i 0 w = Some (GaveUp, info (CannotStop i) (poll_world env 5 w))"
proof -
  from wait_finishing_cases [of env i w] obtain r w2 where
    r: "wait_finishing env i 0 w = Some (r, w2)" and
    c: "(r = GaveUp \<and> w2 = info (CannotStop i) (poll_world env 5 w) \<and>
         (\<forall>k<5. \<not> finished_at env i k w))
      \<or> (\<exists>k<5. r = Finished (int k) \<and> w2 = poll_world env k w \<and> finished_at env i k w)
      \<or> (\<exists>k<5. \<exists>e. r = WaitRaised e \<and> w2 = poll_world env k w \<and> get_session i w2 = Inl e)"
    by blast
  from assms have nf: "\<And>k. k < 5 \<Longrightarrow> \<not> finished_at env i k w"
    by (auto simp: finished_at_def)
  from assms have rd: "\<And>k e. k < 5 \<Longrightarrow> get_session i (poll_world env k w) \<noteq> Inl e"
    by fastforce
  from c nf rd have "r = GaveUp \<and> w2 = info (CannotStop i) (poll_world env 5 w)"
    by blast
  with r show ?thesis by simp
qed

lemma wait_finished:
  assumes "k < 5"
    and "\<forall>j<k. \<exists>s. get_session i (poll_world env j w) = Inr s \<and> \<not> finished s"
    and "get_session i (poll_world env k w) = Inr s" and "finished s"
  shows "wait_finishing env i 0 w = Some (Finished (int k), poll_world env k w)"
proof -
  from assms(1) have "k = 0 \<or> k = 1 \<or> k = 2 \<or> k = 3 \<or> k = 4" by arith
  then show ?thesis
    using assms(2-4)
    by (elim disjE) (auto simp: wait_lt wait_4 eval_nat_numeral All_less_Suc)
qed

subsection \<open>The assembly step\<close>

lemma range_1_tl: "map ((!) xs) [Suc 0..<length xs] = tl xs"
proof (cases xs)
  case Nil
  then show ?thesis by simp
next
  case (Cons x ys)
  have "[Suc 0..<length (x # ys)] = map Suc [0..<length ys]"
    by (simp add: map_Suc_upt)
  then have "map ((!) (x # ys)) [Suc 0..<length (x # ys)] = map ((!) ys) [0..<length ys]"
    by (simp add: comp_def)
  with Cons show ?thesis by (simp add: map_nth)
qed

lemma save_to_mp4_video:
  assumes "save_to_mp4 fmt i v c w = Some (VideoWritten vid, w')"
  shows "\<exists>s. get_session i w = Inr s \<and> elapsed s \<noteq> 0 \<and> frames s \<noteq> []
          \<and> video_fps (length (frames s)) (elapsed s) = Inr (vfps vid)
          \<and> vframes vid = tl (frames s)
          \<and> videos w' = videos w @ [vid]"
proof (cases "get_session i w")
  case (Inl e)
  with assms show ?thesis by (simp add: save_to_mp4_def)
next
  case (Inr s)
  let ?w1 = "info (RecordTime (elapsed s) (length (frames s))) (info (WaitSeconds c) w)"
  from assms Inr have ok: "elapsed s \<noteq> 0 \<and> frames s \<noteq> []"
    by (auto simp: save_to_mp4_def Let_def split: if_splits)
  with assms Inr obtain fps where fps: "video_fps (length (frames s)) (elapsed s) = Inr fps"
    by (auto simp: save_to_mp4_def Let_def split: sum.splits)
  with assms Inr ok obtain h wd where sh: "image_shape ?w1 (frames s ! 0) = Some (h, wd)"
    by (auto simp: save_to_mp4_def Let_def split: option.splits)
  with assms Inr ok fps obtain path w2 where gp: "get_video_path fmt v ?w1 = Some (Inr path, w2)"
    by (auto simp: save_to_mp4_def Let_def split: option.splits sum.splits)
  from get_video_path_world [OF gp] have vw2: "videos w2 = videos w"
    by (auto simp: info_def)
  from assms Inr ok fps sh gp have
    "vid = \<lparr>vpath = path, vfps = fps, vsize = (wd, h),
            vframes = map (\<lambda>i. frames s ! i) [1..<length (frames s)]\<rparr>"
    and "w' = info (WriteDone i) (w2\<lparr>videos := videos w2 @ [vid], files := insert path (files w2)\<rparr>)"
    by (auto simp: save_to_mp4_def Let_def)
  with Inr ok vw2 fps show ?thesis
    by (simp add: range_1_tl info_def)
qed

text \<open>In general the writer receives the frame list without its head.\<close>

lemma written_frames_tl:
  assumes "save_to_mp4 fmt i v c w = Some (VideoWritten vid, w')"
    and "get_session i w = Inr s"
  shows "vframes vid = tl (frames s) \<and> length (vframes vid) = length (frames s) - 1"
  using save_to_mp4_video [OF assms(1)] assms(2) by auto


subsection \<open>Handles that Stop rejects\<close>

text \<open>What line 135 does reject, and the handles below \<open>-n\<close>, which raise at line 139 after
  the log entry of line 138.\<close>

lemma stop_rejects:
  "screen_video_queue w = None \<Longrightarrow>
     stop_recording_and_save_to_mp4 fmt env h v w =
       Some (StopRaised (RuntimeError ''screen video queue is not init''), w)"
  "screen_video_queue w = Some q \<Longrightarrow> h = None \<or> (\<exists>i. h = Some i \<and> int (length q) \<le> i) \<Longrightarrow>
     stop_recording_and_save_to_mp4 fmt env h v w =
       Some (StopRaised
         (RuntimeError ''index is null or invalid, please make sure index is correct''), w)"
  "screen_video_queue w = Some q \<Longrightarrow> i < - int (length q) \<Longrightarrow>
     stop_recording_and_save_to_mp4 fmt env (Some i) v w =
       Some (StopRaised IndexError, info (StopRecord i) w)"
  by (auto simp: stop_recording_and_save_to_mp4_def flag_off_def update_session_def
      py_index_def info_def)

subsection \<open>Unfolding the model on concrete worlds\<close>

lemmas eval_defs = capture_screenshots_def fresh_def Let_def new_session_def info_def
      loop_pass_def get_session_def py_index_def loop_body_def get_video_image_path_def
      get_video_path_def get_screenshot_path_def screenshot_index_def
      counter_value_def index_loop.simps str_int_def str_nat.simps path_join_def directory_def
      create_directory_def dirname_def save_screenshot_def update_session_def recorded_def
      six_frames_def six_shots_def started_def captured_once_def two_taken_def
      capture_failed_def

text \<open>The world \<open>started\<close> is what one call of Start makes of \<open>fresh\<close>.\<close>

lemma start_in_fresh:
  "capture_screenshots ''frame-{index}.png'' fresh = (0, started)"
  by (simp add: eval_defs)

section \<open>The claims\<close>

subsection \<open>The frames handed to the encoder\<close>

text \<open>
  C1. The assembled video is to hold every path of the frame list, in order, the first one
  included: \<open>n\<close> frames for \<open>n\<close> captures. In the scenario Start returns 0, six captures over 3
  seconds lead to \<open>recorded\<close>, and Stop writes \<^verbatim>\<open>/out/out-1.mp4\<close> at 2 frames per second with
  the size of the first frame; the writer receives the five frames 2 to 6.
\<close>

theorem recording_drops_first_frame:
  "fst (capture_screenshots ''frame-{index}.png'' fresh) = 0
   \<and> capture_loop format_index 100 0 ''frame-{index}.png'' six_shots
        (snd (capture_screenshots ''frame-{index}.png'' fresh)) = Some (Continue recorded)
   \<and> map_option fst
        (stop_recording_and_save_to_mp4 format_index thread_exits (Some 0) ''out-{index}.mp4'' recorded)
      = Some (VideoWritten
               \<lparr>vpath = ''/out/out-1.mp4'', vfps = 2, vsize = (800, 600),
                vframes = [''/out/frame-2.png'', ''/out/frame-3.png'', ''/out/frame-4.png'',
                           ''/out/frame-5.png'', ''/out/frame-6.png'']\<rparr>)"
proof -
  have a: "fst (capture_screenshots ''frame-{index}.png'' fresh) = 0"
    by (simp add: eval_defs)
  have b: "capture_loop format_index 100 0 ''frame-{index}.png'' six_shots
        (snd (capture_screenshots ''frame-{index}.png'' fresh)) = Some (Continue recorded)"
    by (simp add: eval_defs insert_commute)
  have c: "map_option fst
        (stop_recording_and_save_to_mp4 format_index thread_exits (Some 0) ''out-{index}.mp4'' recorded)
      = Some (VideoWritten
               \<lparr>vpath = ''/out/out-1.mp4'', vfps = 2, vsize = (800, 600),
                vframes = [''/out/frame-2.png'', ''/out/frame-3.png'', ''/out/frame-4.png'',
                           ''/out/frame-5.png'', ''/out/frame-6.png'']\<rparr>)"
    by (simp add: stop_recording_and_save_to_mp4_def flag_off_def wait_and_save_def wait_lt wait_4
        sleep_1_def thread_exits_def save_to_mp4_def video_fps_six video_fps_6_3
        upt_rec eval_defs)
  from a b c show ?thesis by blast
qed

subsection \<open>Start without a browser\<close>

text \<open>
  C2. Start called while no browser is open is to log a message and return without a
  session and without a handle. In \<open>no_browser\<close> the keyword appends an entry, starts a capture
  thread and returns the handle 0; \<^verbatim>\<open>capture_page_screenshot\<close> in the same world logs and
  returns \<^verbatim>\<open>None\<close>.
\<close>

theorem start_without_browser:
  "\<not> drivers_current no_browser \<and>
   capture_screenshots ''screenshots-{index}.png'' no_browser =
     (0, no_browser\<lparr>screen_video_queue := Some [new_session],
                     infos := [StartRecord 0],
                     threads := [(0, ''screenshots-{index}.png'')]\<rparr>) \<and>
   capture_page_screenshot format_index Saved ''selenium-screenshot-{index}.png'' no_browser =
     Some (Inr None, no_browser\<lparr>infos := [NoBrowserOpen]\<rparr>)"
  by (simp add: no_browser_def fresh_def capture_screenshots_def Let_def info_def
      capture_page_screenshot_def)

subsection \<open>The bounded wait of Stop\<close>

text \<open>
  C3. For a call of Stop with a valid handle the wait is bounded. After the recording flag
  is cleared, the wait always returns: either it gives up after the fifth sleep, or it stops at
  one of the polls 0 to 4, so there are at most 5 polls with one sleep of 1 second after each
  poll that found the flag unset. If the flag is still unset at the five polls, the keyword
  logs the message, returns normally and writes no video. A video is written only if the flag
  was seen set at one of the five polls and there the elapsed time is not 0 and the frame list
  is not empty; when the flag is seen set with elapsed time 0 or no frames, the keyword returns
  with the two log entries only.
\<close>

theorem stop_wait_bounded:
  assumes "screen_video_queue w = Some q" and "0 \<le> i" and "i < int (length q)"
  shows "\<exists>w1. flag_off i w = Inr w1 \<and>
     (\<exists>r w2. wait_finishing env i 0 w1 = Some (r, w2) \<and>
        ((r = GaveUp \<and> w2 = info (CannotStop i) (poll_world env 5 w1))
         \<or> (\<exists>k<5. r \<noteq> GaveUp \<and> w2 = poll_world env k w1))) \<and>
     ((\<forall>k<5. \<exists>s. get_session i (poll_world env k w1) = Inr s \<and> \<not> finished s) \<longrightarrow>
        stop_recording_and_save_to_mp4 fmt env (Some i) v w =
          Some (StopGaveUp, info (CannotStop i) (poll_world env 5 w1))) \<and>
     (\<forall>vid w'. stop_recording_and_save_to_mp4 fmt env (Some i) v w = Some (VideoWritten vid, w') \<longrightarrow>
        (\<exists>k<5. \<exists>s. get_session i (poll_world env k w1) = Inr s \<and> finished s \<and>
            elapsed s \<noteq> 0 \<and> frames s \<noteq> [])) \<and>
     (\<forall>k s. k < 5 \<and> (\<forall>j<k. \<exists>s'. get_session i (poll_world env j w1) = Inr s' \<and> \<not> finished s') \<and>
            get_session i (poll_world env k w1) = Inr s \<and> finished s \<and>
            (elapsed s = 0 \<or> frames s = []) \<longrightarrow>
        stop_recording_and_save_to_mp4 fmt env (Some i) v w =
          Some (NoVideo, info (RecordTime (elapsed s) (length (frames s)))
                           (info (WaitSeconds (int k)) (poll_world env k w1))))"
proof -
  let ?w1 = "(info (StopRecord i) w)\<lparr>screen_video_queue :=
               Some (q[nat i := (q ! nat i)\<lparr>recording := False\<rparr>])\<rparr>"
  from assms have fo: "flag_off i w = Inr ?w1"
    by (simp add: flag_off_valid py_index_nonneg)
  from assms fo have stop: "stop_recording_and_save_to_mp4 fmt env (Some i) v w =
      wait_and_save fmt env i v ?w1"
    by (simp add: stop_recording_and_save_to_mp4_def)
  have a: "\<exists>r w2. wait_finishing env i 0 ?w1 = Some (r, w2) \<and>
        ((r = GaveUp \<and> w2 = info (CannotStop i) (poll_world env 5 ?w1))
         \<or> (\<exists>k<5. r \<noteq> GaveUp \<and> w2 = poll_world env k ?w1))"
    using wait_finishing_cases [of env i ?w1] by blast
  have b: "(\<forall>k<5. \<exists>s. get_session i (poll_world env k ?w1) = Inr s \<and> \<not> finished s) \<longrightarrow>
        stop_recording_and_save_to_mp4 fmt env (Some i) v w =
          Some (StopGaveUp, info (CannotStop i) (poll_world env 5 ?w1))"
    by (simp add: stop wait_and_save_def wait_gave_up)
  have c: "\<exists>k<5. \<exists>s. get_session i (poll_world env k ?w1) = Inr s \<and> finished s \<and>
            elapsed s \<noteq> 0 \<and> frames s \<noteq> []"
    if h: "stop_recording_and_save_to_mp4 fmt env (Some i) v w = Some (VideoWritten vid, w')"
    for vid w'
  proof -
    from wait_finishing_cases [of env i ?w1] obtain r w2 where
      r: "wait_finishing env i 0 ?w1 = Some (r, w2)" and
      cs: "(r = GaveUp \<and> w2 = info (CannotStop i) (poll_world env 5 ?w1) \<and>
             (\<forall>k<5. \<not> finished_at env i k ?w1))
         \<or> (\<exists>k<5. r = Finished (int k) \<and> w2 = poll_world env k ?w1 \<and> finished_at env i k ?w1)
         \<or> (\<exists>k<5. \<exists>e. r = WaitRaised e \<and> w2 = poll_world env k ?w1 \<and> get_session i w2 = Inl e)"
      by blast
    from h r stop obtain c where rc: "r = Finished c"
      and sv: "save_to_mp4 fmt i v c w2 = Some (VideoWritten vid, w')"
      by (cases r) (auto simp: wait_and_save_def)
    from cs rc obtain k where k: "k < 5" "w2 = poll_world env k ?w1" "finished_at env i k ?w1"
      by auto
    from save_to_mp4_video [OF sv] obtain s where
      s: "get_session i w2 = Inr s" "elapsed s \<noteq> 0" "frames s \<noteq> []" by blast
    with k have "finished s" by (simp add: finished_at_def)
    with k s show ?thesis by blast
  qed
  have d: "stop_recording_and_save_to_mp4 fmt env (Some i) v w =
          Some (NoVideo, info (RecordTime (elapsed s) (length (frames s)))
                           (info (WaitSeconds (int k)) (poll_world env k ?w1)))"
    if h: "k < 5 \<and> (\<forall>j<k. \<exists>s'. get_session i (poll_world env j ?w1) = Inr s' \<and> \<not> finished s') \<and>
            get_session i (poll_world env k ?w1) = Inr s \<and> finished s \<and>
            (elapsed s = 0 \<or> frames s = [])"
    for k s
  proof -
    from h have "wait_finishing env i 0 ?w1 = Some (Finished (int k), poll_world env k ?w1)"
      by (intro wait_finished) auto
    with h show ?thesis
      by (auto simp: stop wait_and_save_def save_to_mp4_def Let_def)
  qed
  from fo a b c d show ?thesis by blast
qed

theorem stop_wait_bounded_witness:
  "screen_video_queue recorded =
       Some [\<lparr>elapsed = 3, recording = True, frames = six_frames, finished = False\<rparr>]
   \<and> (0::int) \<le> 0
   \<and> (0::int) < int (length [\<lparr>elapsed = 3, recording = True, frames = six_frames, finished = False\<rparr>])
   \<and> map_option fst (stop_recording_and_save_to_mp4 format_index idle (Some 0) ''video-{index}.mp4'' recorded)
       = Some StopGaveUp"
proof -
  let ?q = "[\<lparr>elapsed = 3, recording = True, frames = six_frames, finished = False\<rparr>]"
  have h1: "screen_video_queue recorded = Some ?q" by (simp add: recorded_def)
  have h2: "(0::int) \<le> 0" by simp
  have h3: "(0::int) < int (length ?q)" by simp
  from stop_wait_bounded [OF h1 h2 h3, of idle format_index "''video-{index}.mp4''"]
  obtain w1 where f: "flag_off 0 recorded = Inr w1"
    and g: "(\<forall>k<5. \<exists>s. get_session 0 (poll_world idle k w1) = Inr s \<and> \<not> finished s) \<longrightarrow>
        stop_recording_and_save_to_mp4 format_index idle (Some 0) ''video-{index}.mp4'' recorded =
          Some (StopGaveUp, info (CannotStop 0) (poll_world idle 5 w1))"
    by blast
  have pw: "\<And>k. get_session 0 (poll_world idle k w1) = get_session 0 w1"
  proof -
    fix k show "get_session 0 (poll_world idle k w1) = get_session 0 w1"
      by (induction k) (simp_all add: sleep_1_def idle_def)
  qed
  from f have "get_session 0 w1 = Inr \<lparr>elapsed = 3, recording = False, frames = six_frames, finished = False\<rparr>"
    by (auto simp: flag_off_def update_session_def recorded_def info_def py_index_def get_session_def)
  with pw have "\<forall>k<5. \<exists>s. get_session 0 (poll_world idle k w1) = Inr s \<and> \<not> finished s"
    by simp
  with g h1 h2 h3 show ?thesis by simp
qed

subsection \<open>Frame rate\<close>




subsection \<open>Handles that are not in range\<close>

text \<open>
  C5. Stop is to fail at once, without clearing a flag and without waiting, when the queue
  does not exist or the handle is not one of the handles issued. The queue of \<open>recorded\<close> has
  one entry, so the only handle issued is 0. Called with \<open>-1\<close> the keyword does not raise: it
  clears the flag of entry 0, sleeps five times and returns at line 146.
\<close>

theorem stop_minus_one_accepted:
  "stop_recording_and_save_to_mp4 format_index idle (Some (- 1)) ''video-{index}.mp4'' recorded =
     Some (StopGaveUp,
           recorded\<lparr>screen_video_queue :=
                      Some [\<lparr>elapsed = 3, recording = False, frames = six_frames, finished = False\<rparr>],
                    infos := [StartRecord 0, StopRecord (- 1), CannotStop (- 1)],
                    slept := 5\<rparr>)"
  by (simp add: stop_recording_and_save_to_mp4_def recorded_def flag_off_def update_session_def
      py_index_def info_def wait_and_save_def wait_lt wait_4 get_session_def sleep_1_def idle_def)

subsection \<open>Handles returned by Start\<close>



subsection \<open>Path allocation\<close>

text \<open>
  C7. A template without an index placeholder is to resolve to the same path at every call,
  whatever files exist. The template \<^verbatim>\<open>a{{b}}.png\<close> has no placeholder; formatting turns it
  into \<^verbatim>\<open>a{b}.png\<close>, which differs from the template, so the test of line 206 (whose comment
  reads "filename didn't contain {index}") does not recognise it. In \<open>fresh\<close> the call
  returns \<^verbatim>\<open>/out/a{b}.png\<close>; once that file exists every counter value gives the same
  existing path, and neither \<^verbatim>\<open>_get_screenshot_path\<close> nor \<^verbatim>\<open>_get_video_image_path\<close> returns.
\<close>

theorem doubled_braces_never_return:
  "format_index ''a{{b}}.png'' 1 = Some ''a{b}.png''
   \<and> get_screenshot_path format_index ''a{{b}}.png'' fresh = Some (Inr ''/out/a{b}.png'')
   \<and> get_screenshot_path format_index ''a{{b}}.png''
         (fresh\<lparr>files := {''/out'', ''/out/a{b}.png''}\<rparr>) = None
   \<and> get_video_image_path format_index ''a{{b}}.png''
         (fresh\<lparr>files := {''/out'', ''/out/a{b}.png''}\<rparr>) = None"
proof -
  have a: "format_index ''a{{b}}.png'' 1 = Some ''a{b}.png''" by simp
  have b: "get_screenshot_path format_index ''a{{b}}.png'' fresh = Some (Inr ''/out/a{b}.png'')"
    by (simp add: get_screenshot_path_def fresh_def directory_def index_loop.simps path_join_def)
  have n: "index_loop format_index {''/out'', ''/out/a{b}.png''} ''/out'' ''a{{b}}.png'' 0 = None"
    by (rule index_loop_never_returns) (simp add: path_join_def)
  from n have c: "get_screenshot_path format_index ''a{{b}}.png''
         (fresh\<lparr>files := {''/out'', ''/out/a{b}.png''}\<rparr>) = None"
    by (simp add: get_screenshot_path_def fresh_def directory_def)
  from n have d: "get_video_image_path format_index ''a{{b}}.png''
         (fresh\<lparr>files := {''/out'', ''/out/a{b}.png''}\<rparr>) = None"
    by (simp add: get_video_image_path_def fresh_def directory_def counter_value_def)
  from a b c d show ?thesis by blast
qed

text \<open>
  What the helpers do on the other templates. A template that formatting leaves unchanged,
  as every template without braces is (\<open>format_index_plain\<close>), resolves to the same path at
  every call, whatever files exist: the join of the directory and the template. For a
  template that formatting changes, each helper returns the path of the first counter value
  after the current one whose path does not exist, the current value being 0 for
  \<^verbatim>\<open>_get_screenshot_path\<close> and the value of the global for the other two, which is left at
  the value used.
\<close>

lemma next_path_resolution:
  "((\<forall>i. fmt t i = Some t) \<longrightarrow>
       get_screenshot_path fmt t w = Some (Inr (path_join (directory w) t)) \<and>
       get_video_image_path fmt t w =
         Some (Inr (path_join (directory w) t),
               w\<lparr>g_screenshots_index := Some (counter_value (g_screenshots_index w) + 1)\<rparr>) \<and>
       get_video_path fmt t w =
         Some (Inr (path_join (directory w) t),
               w\<lparr>g_video_index := Some (counter_value (g_video_index w) + 1)\<rparr>))
   \<and> (first_free fmt w t 0 k s \<longrightarrow>
         get_screenshot_path fmt t w = Some (Inr (path_join (directory w) s)))
   \<and> (first_free fmt w t (counter_value (g_screenshots_index w)) k s \<longrightarrow>
         get_video_image_path fmt t w =
           Some (Inr (path_join (directory w) s), w\<lparr>g_screenshots_index := Some k\<rparr>))
   \<and> (first_free fmt w t (counter_value (g_video_index w)) k s \<longrightarrow>
         get_video_path fmt t w =
           Some (Inr (path_join (directory w) s), w\<lparr>g_video_index := Some k\<rparr>))"
  by (simp add: get_screenshot_path_def get_video_image_path_def get_video_path_def
      index_loop_same first_free_loop)

lemma next_path_resolution_at_two_taken:
  "(\<forall>i. format_index ''custom_name.png'' i = Some ''custom_name.png'')
   \<and> first_free format_index two_taken ''f-{index}.png'' 0 3 ''f-3.png''
   \<and> get_screenshot_path format_index ''custom_name.png'' two_taken =
        Some (Inr ''/out/custom_name.png'')
   \<and> get_screenshot_path format_index ''f-{index}.png'' two_taken = Some (Inr ''/out/f-3.png'')"
proof -
  have h1: "\<forall>i. format_index ''custom_name.png'' i = Some ''custom_name.png''" by simp
  have iv: "{0<..<3::int} = {1, 2}" by auto
  have h2: "first_free format_index two_taken ''f-{index}.png'' 0 3 ''f-3.png''"
    by (simp add: first_free_def iv two_taken_def fresh_def str_int_def str_nat.simps
        directory_def path_join_def)
  from next_path_resolution [of format_index "''custom_name.png''" two_taken] h1
  have a: "get_screenshot_path format_index ''custom_name.png'' two_taken =
        Some (Inr (path_join (directory two_taken) ''custom_name.png''))" by blast
  from next_path_resolution [of format_index "''f-{index}.png''" two_taken 3 "''f-3.png''"] h2
  have b: "get_screenshot_path format_index ''f-{index}.png'' two_taken =
        Some (Inr (path_join (directory two_taken) ''f-3.png''))" by blast
  from a b h1 h2 show ?thesis
    by (simp add: two_taken_def fresh_def directory_def path_join_def)
qed

subsection \<open>The counters of the path helpers\<close>




subsection \<open>One pass of the capture thread\<close>

text \<open>
  C9 (as amended). In a pass of the capture thread that finds the recording flag set, no
  outcome of the attempt ends the loop. When the capture returns true, the path is appended to
  the frame list and the elapsed time is set to the clock minus the start time. When the
  capture raises, or the path allocation or the directory creation before it raises, the
  thread logs the message and sleeps 1 second, appends nothing and leaves the elapsed time as
  it was. When the capture returns false, nothing is appended, nothing is logged, there is no
  sleep, and the elapsed time is still set to the clock minus the start time.
\<close>

theorem capture_pass_outcomes:
  assumes "get_session index w = Inr s" and "recording s"
  shows "(\<forall>p. loop_pass fmt shot start_time now index filename w = Some p \<longrightarrow> (\<exists>w'. p = Continue w'))
   \<and> (\<forall>path w1 w2. get_video_image_path fmt filename w = Some (Inr path, w1) \<and>
          create_directory path w1 = Inr w2 \<longrightarrow>
        (\<exists>w'. loop_pass fmt shot start_time now index filename w = Some (Continue w') \<and>
           infos w' = (if shot = ShotRaised then infos w @ [CannotCapture] else infos w) \<and>
           slept w' = (if shot = ShotRaised then slept w + 1 else slept w) \<and>
           get_session index w' =
             Inr (case shot of
                    Saved \<Rightarrow> s\<lparr>frames := frames s @ [path], elapsed := now - start_time\<rparr>
                  | NotSaved \<Rightarrow> s\<lparr>elapsed := now - start_time\<rparr>
                  | ShotRaised \<Rightarrow> s)))
   \<and> (\<forall>e path w1. get_video_image_path fmt filename w = Some (Inl e, w1) \<or>
          (get_video_image_path fmt filename w = Some (Inr path, w1) \<and>
           create_directory path w1 = Inl e) \<longrightarrow>
        loop_pass fmt shot start_time now index filename w = Some (Continue (capture_failed w1)) \<and>
        get_session index (capture_failed w1) = Inr s \<and>
        infos (capture_failed w1) = infos w @ [CannotCapture] \<and>
        slept (capture_failed w1) = slept w + 1)"
proof -
  have a: "\<forall>p. loop_pass fmt shot start_time now index filename w = Some p \<longrightarrow> (\<exists>w'. p = Continue w')"
    using assms by (auto simp: loop_pass_def)
  have b: "\<exists>w'. loop_pass fmt shot start_time now index filename w = Some (Continue w') \<and>
           infos w' = (if shot = ShotRaised then infos w @ [CannotCapture] else infos w) \<and>
           slept w' = (if shot = ShotRaised then slept w + 1 else slept w) \<and>
           get_session index w' =
             Inr (case shot of
                    Saved \<Rightarrow> s\<lparr>frames := frames s @ [path], elapsed := now - start_time\<rparr>
                  | NotSaved \<Rightarrow> s\<lparr>elapsed := now - start_time\<rparr>
                  | ShotRaised \<Rightarrow> s)"
    if g: "get_video_image_path fmt filename w = Some (Inr path, w1)"
      and cd: "create_directory path w1 = Inr w2" for path w1 w2
  proof -
    from get_video_image_path_world [OF g] obtain k where w1: "w1 = w\<lparr>g_screenshots_index := Some k\<rparr>"
      by blast
    from create_directory_world [OF cd] obtain fs where w2: "w2 = w1\<lparr>files := fs\<rparr>" by blast
    from w1 w2 assms have s2: "get_session index w2 = Inr s" "infos w2 = infos w" "slept w2 = slept w"
      by simp_all
    show ?thesis
    proof (cases shot)
      case Saved
      let ?w3 = "w2\<lparr>files := insert path (files w2)\<rparr>"
      from s2 have s3: "get_session index ?w3 = Inr s" by simp
      from update_session_ok [OF s3, of "\<lambda>s. s\<lparr>frames := frames s @ [path]\<rparr>"]
      obtain qs where u1: "update_session index (\<lambda>s. s\<lparr>frames := frames s @ [path]\<rparr>) ?w3 =
             Inr (?w3\<lparr>screen_video_queue := Some qs\<rparr>)"
        and s4: "get_session index (?w3\<lparr>screen_video_queue := Some qs\<rparr>) =
                   Inr (s\<lparr>frames := frames s @ [path]\<rparr>)" by blast
      from update_session_ok [OF s4, of "\<lambda>s. s\<lparr>elapsed := now - start_time\<rparr>"]
      obtain qs' where u2: "update_session index (\<lambda>s. s\<lparr>elapsed := now - start_time\<rparr>)
              (?w3\<lparr>screen_video_queue := Some qs\<rparr>) =
             Inr (?w3\<lparr>screen_video_queue := Some qs'\<rparr>)"
        and s5: "get_session index (?w3\<lparr>screen_video_queue := Some qs'\<rparr>) =
                   Inr (s\<lparr>frames := frames s @ [path], elapsed := now - start_time\<rparr>)"
        by auto
      from assms g cd Saved u1 u2 have
        "loop_pass fmt shot start_time now index filename w =
           Some (Continue (?w3\<lparr>screen_video_queue := Some qs'\<rparr>))"
        by (simp add: loop_pass_def loop_body_def save_screenshot_def)
      with s5 s2 Saved show ?thesis by simp
    next
      case NotSaved
      from update_session_ok [OF s2(1), of "\<lambda>s. s\<lparr>elapsed := now - start_time\<rparr>"]
      obtain qs where u: "update_session index (\<lambda>s. s\<lparr>elapsed := now - start_time\<rparr>) w2 =
             Inr (w2\<lparr>screen_video_queue := Some qs\<rparr>)"
        and s3: "get_session index (w2\<lparr>screen_video_queue := Some qs\<rparr>) =
                   Inr (s\<lparr>elapsed := now - start_time\<rparr>)" by blast
      from assms g cd NotSaved u have
        "loop_pass fmt shot start_time now index filename w =
           Some (Continue (w2\<lparr>screen_video_queue := Some qs\<rparr>))"
        by (simp add: loop_pass_def loop_body_def save_screenshot_def)
      with s3 s2 NotSaved show ?thesis by simp
    next
      case ShotRaised
      from assms g cd ShotRaised have
        "loop_pass fmt shot start_time now index filename w = Some (Continue (capture_failed w2))"
        by (simp add: loop_pass_def loop_body_def save_screenshot_def)
      moreover have "infos (capture_failed w2) = infos w2 @ [CannotCapture]"
        "slept (capture_failed w2) = slept w2 + 1"
        by (simp_all add: capture_failed_def info_def)
      ultimately show ?thesis using s2 ShotRaised by simp
    qed
  qed
  have c: "loop_pass fmt shot start_time now index filename w = Some (Continue (capture_failed w1)) \<and>
        get_session index (capture_failed w1) = Inr s \<and>
        infos (capture_failed w1) = infos w @ [CannotCapture] \<and>
        slept (capture_failed w1) = slept w + 1"
    if h: "get_video_image_path fmt filename w = Some (Inl e, w1) \<or>
          (get_video_image_path fmt filename w = Some (Inr path, w1) \<and>
           create_directory path w1 = Inl e)" for e path w1
  proof -
    from h obtain r where g: "get_video_image_path fmt filename w = Some (r, w1)" by blast
    from get_video_image_path_world [OF g] obtain k where w1: "w1 = w\<lparr>g_screenshots_index := Some k\<rparr>"
      by blast
    from h assms have "loop_pass fmt shot start_time now index filename w =
        Some (Continue (capture_failed w1))"
      by (auto simp: loop_pass_def loop_body_def)
    moreover have "infos (capture_failed w1) = infos w1 @ [CannotCapture]"
      "slept (capture_failed w1) = slept w1 + 1"
      by (simp_all add: capture_failed_def info_def)
    ultimately show ?thesis using w1 assms by simp
  qed
  from a b c show ?thesis by blast
qed

theorem capture_pass_outcomes_witness:
  "get_session 0 started = Inr new_session \<and> recording new_session \<and>
   get_video_image_path format_index ''frame-{index}.png'' started =
     Some (Inr ''/out/frame-1.png'', started\<lparr>g_screenshots_index := Some 1\<rparr>) \<and>
   create_directory ''/out/frame-1.png'' (started\<lparr>g_screenshots_index := Some 1\<rparr>) =
     Inr (started\<lparr>g_screenshots_index := Some 1\<rparr>) \<and>
   (\<exists>w'. loop_pass format_index Saved 100 102 0 ''frame-{index}.png'' started = Some (Continue w') \<and>
      get_session 0 w' = Inr \<lparr>elapsed = 2, recording = True, frames = [''/out/frame-1.png''],
                               finished = False\<rparr>)"
proof -
  have h1: "get_session 0 started = Inr new_session" by (simp add: eval_defs)
  have h2: "recording new_session" by (simp add: new_session_def)
  have h3: "get_video_image_path format_index ''frame-{index}.png'' started =
     Some (Inr ''/out/frame-1.png'', started\<lparr>g_screenshots_index := Some 1\<rparr>)"
    by (simp add: eval_defs)
  have h4: "create_directory ''/out/frame-1.png'' (started\<lparr>g_screenshots_index := Some 1\<rparr>) =
     Inr (started\<lparr>g_screenshots_index := Some 1\<rparr>)"
    by (simp add: eval_defs)
  from capture_pass_outcomes [OF h1 h2, of format_index Saved 100 102 "''frame-{index}.png''"] h3 h4
  have "\<exists>w'. loop_pass format_index Saved 100 102 0 ''frame-{index}.png'' started = Some (Continue w') \<and>
      get_session 0 w' =
        Inr (case Saved of
               Saved \<Rightarrow> new_session\<lparr>frames := frames new_session @ [''/out/frame-1.png''],
                                      elapsed := 102 - 100\<rparr>
             | NotSaved \<Rightarrow> new_session\<lparr>elapsed := 102 - 100\<rparr>
             | ShotRaised \<Rightarrow> new_session)"
    by blast
  then have "\<exists>w'. loop_pass format_index Saved 100 102 0 ''frame-{index}.png'' started = Some (Continue w') \<and>
      get_session 0 w' = Inr \<lparr>elapsed = 2, recording = True, frames = [''/out/frame-1.png''],
                               finished = False\<rparr>"
    by (simp add: new_session_def)
  with h1 h2 h3 h4 show ?thesis by blast
qed

text \<open>The claim as first stated has every failed capture logged and followed by a pause, and
  the elapsed time updated on success only. A capture that returns false is a failed capture;
  after it the elapsed time is updated, the log is as before and there was no sleep.\<close>

theorem capture_false_updates_elapsed:
  "get_session 0 started = Inr new_session \<and> elapsed new_session = 0 \<and>
   loop_pass format_index NotSaved 100 102 0 ''frame-{index}.png'' started =
     Some (Continue (started\<lparr>screen_video_queue := Some [new_session\<lparr>elapsed := 2\<rparr>],
                            g_screenshots_index := Some 1\<rparr>)) \<and>
   infos (started\<lparr>screen_video_queue := Some [new_session\<lparr>elapsed := 2\<rparr>],
                 g_screenshots_index := Some 1\<rparr>) = infos started \<and>
   slept (started\<lparr>screen_video_queue := Some [new_session\<lparr>elapsed := 2\<rparr>],
                 g_screenshots_index := Some 1\<rparr>) = slept started"
  by (simp add: eval_defs)

subsection \<open>Negative handles\<close>

text \<open>
  C10. With a queue of length \<open>n \<ge> 1\<close> and a handle \<open>h\<close> with \<open>-n \<le> h \<le> -1\<close>, Stop passes the
  test of line 135 and goes on to the wait with the recording flag of the entry at position
  \<open>n + h\<close> cleared; that entry is the one the wait polls. For \<open>h = -1\<close> it is the last entry.
\<close>

theorem stop_negative_handle:
  assumes "screen_video_queue w = Some q" and "1 \<le> length q"
    and "- int (length q) \<le> h" and "h \<le> - 1"
  shows "stop_recording_and_save_to_mp4 fmt env (Some h) v w =
           wait_and_save fmt env h v
             ((info (StopRecord h) w)\<lparr>screen_video_queue :=
                Some (q[nat (int (length q) + h) :=
                       (q ! nat (int (length q) + h))\<lparr>recording := False\<rparr>])\<rparr>)
         \<and> get_session h
             ((info (StopRecord h) w)\<lparr>screen_video_queue :=
                Some (q[nat (int (length q) + h) :=
                       (q ! nat (int (length q) + h))\<lparr>recording := False\<rparr>])\<rparr>)
           = Inr ((q ! nat (int (length q) + h))\<lparr>recording := False\<rparr>)
         \<and> (h = - 1 \<longrightarrow> nat (int (length q) + h) = length q - 1)"
proof -
  from assms have pi: "py_index (length q) h = Some (nat (int (length q) + h))"
    by (simp add: py_index_neg)
  from assms have lt: "nat (int (length q) + h) < length q" by simp
  from assms pi have "flag_off h w = Inr ((info (StopRecord h) w)\<lparr>screen_video_queue :=
                Some (q[nat (int (length q) + h) :=
                       (q ! nat (int (length q) + h))\<lparr>recording := False\<rparr>])\<rparr>)"
    by (simp add: flag_off_valid)
  moreover from assms have "\<not> int (length q) \<le> h" by simp
  ultimately have "stop_recording_and_save_to_mp4 fmt env (Some h) v w =
           wait_and_save fmt env h v
             ((info (StopRecord h) w)\<lparr>screen_video_queue :=
                Some (q[nat (int (length q) + h) :=
                       (q ! nat (int (length q) + h))\<lparr>recording := False\<rparr>])\<rparr>)"
    using assms(1) by (simp add: stop_recording_and_save_to_mp4_def)
  moreover from pi lt have "get_session h
             ((info (StopRecord h) w)\<lparr>screen_video_queue :=
                Some (q[nat (int (length q) + h) :=
                       (q ! nat (int (length q) + h))\<lparr>recording := False\<rparr>])\<rparr>)
           = Inr ((q ! nat (int (length q) + h))\<lparr>recording := False\<rparr>)"
    by (simp add: get_session_def)
  moreover have "h = - 1 \<longrightarrow> nat (int (length q) + h) = length q - 1" by auto
  ultimately show ?thesis by blast
qed

theorem stop_negative_handle_witness:
  "screen_video_queue recorded =
       Some [\<lparr>elapsed = 3, recording = True, frames = six_frames, finished = False\<rparr>]
   \<and> 1 \<le> length [\<lparr>elapsed = 3, recording = True, frames = six_frames, finished = False\<rparr>]
   \<and> get_session (- 1)
        ((info (StopRecord (- 1)) recorded)\<lparr>screen_video_queue :=
           Some [\<lparr>elapsed = 3, recording = False, frames = six_frames, finished = False\<rparr>]\<rparr>)
      = Inr \<lparr>elapsed = 3, recording = False, frames = six_frames, finished = False\<rparr>"
proof -
  let ?q = "[\<lparr>elapsed = 3, recording = True, frames = six_frames, finished = False\<rparr>]"
  have h1: "screen_video_queue recorded = Some ?q" by (simp add: recorded_def)
  have h2: "1 \<le> length ?q" by simp
  have h3: "- int (length ?q) \<le> - 1" by simp
  have h4: "(- 1 :: int) \<le> - 1" by simp
  from stop_negative_handle [OF h1 h2 h3 h4, of format_index idle "''video-{index}.mp4''"]
  show ?thesis using h1 by simp
qed

end
